theory Spec2Isabelle
  imports Main "HOL-Library.Word" "HOL-Library.Sublist"
begin

unbundle bit_operations_syntax

section \<open>oniongen-go: vanity v3 onion address generator\<close>

text \<open>
  A shallow embedding of \<^verbatim>\<open>main.go\<close>.  Byte slices are lists of 8-bit words, Go
  strings are HOL strings (lists of 8-bit characters), and \<^verbatim>\<open>[]byte(s)\<close> is the
  character-wise conversion \<open>bytes_of\<close>.  The library functions the program calls
  (\<^verbatim>\<open>encoding/base32\<close>, \<^verbatim>\<open>encoding/base64\<close>, \<^verbatim>\<open>strings\<close>, \<^verbatim>\<open>crypto/sha512\<close>,
  \<^verbatim>\<open>x/crypto/sha3\<close>, \<^verbatim>\<open>os\<close>, \<^verbatim>\<open>bufio\<close>) are modelled from their published
  specifications (RFC 4648, FIPS 180-4, FIPS 202, POSIX); key generation, the clock
  and the compiled regular expression are inputs supplied by the environment.
\<close>

subsection \<open>Bytes, strings and bits\<close>

type_synonym byte = "8 word"
type_synonym u64 = "64 word"

definition bytes_of :: "string \<Rightarrow> byte list" where
  "bytes_of s = map (\<lambda>c. of_nat (of_char c)) s"

definition string_of :: "byte list \<Rightarrow> string" where
  "string_of bs = map (\<lambda>b. char_of (unat b)) bs"

text \<open>The \<open>k\<close> low bits of a number, most significant first, and back.\<close>

fun bits_of_nat :: "nat \<Rightarrow> nat \<Rightarrow> bool list" where
  "bits_of_nat 0 n = []"
| "bits_of_nat (Suc k) n = bit n k # bits_of_nat k n"

fun nat_of_bits :: "bool list \<Rightarrow> nat" where
  "nat_of_bits [] = 0"
| "nat_of_bits (b # bs) = of_bool b * 2 ^ length bs + nat_of_bits bs"

definition bits_of_bytes :: "byte list \<Rightarrow> bool list" where
  "bits_of_bytes bs = concat (map (\<lambda>b. bits_of_nat 8 (unat b)) bs)"

text \<open>Splitting a list into consecutive groups of \<open>n\<close>; the last group may be shorter.\<close>

fun chunks :: "nat \<Rightarrow> 'a list \<Rightarrow> 'a list list" where
  "chunks n [] = []"
| "chunks n (x # xs) =
     (if n = 0 then [x # xs] else take n (x # xs) # chunks n (drop n (x # xs)))"

subsection \<open>RFC 4648 encodings (\<^verbatim>\<open>encoding/base32\<close>, \<^verbatim>\<open>encoding/base64\<close>)\<close>

definition encodeStd32 :: string where
  "encodeStd32 = ''ABCDEFGHIJKLMNOPQRSTUVWXYZ234567''"

definition encodeStd64 :: string where
  "encodeStd64 = ''ABCDEFGHIJKLMNOPQRSTUVWXYZabcdefghijklmnopqrstuvwxyz0123456789+/''"

text \<open>
  Both encoders cut the input bits into groups of \<open>k\<close> (5 or 6), fill the last group
  with zero bits, look every group up in the alphabet and pad the output with \<open>=\<close> to a
  multiple of \<open>q\<close> characters (8 or 4).
\<close>

definition encode_digit :: "string \<Rightarrow> nat \<Rightarrow> bool list \<Rightarrow> char" where
  "encode_digit alphabet k g = alphabet ! nat_of_bits (g @ replicate (k - length g) False)"

definition encode_radix :: "string \<Rightarrow> nat \<Rightarrow> nat \<Rightarrow> byte list \<Rightarrow> string" where
  "encode_radix alphabet k q src =
     (let digits = map (encode_digit alphabet k) (chunks k (bits_of_bytes src))
      in digits @ replicate ((q - length digits mod q) mod q) (CHR ''=''))"

definition base32_EncodeToString :: "byte list \<Rightarrow> string" where
  "base32_EncodeToString src = encode_radix encodeStd32 5 8 src"

definition base64_EncodeToString :: "byte list \<Rightarrow> string" where
  "base64_EncodeToString src = encode_radix encodeStd64 6 4 src"

text \<open>
  The decoder of the standard base32 alphabet: padding is dropped, every character is
  looked up in the alphabet (a character outside it is an error), and the 5-bit groups are
  regrouped into whole bytes.
\<close>

fun index_of :: "'a \<Rightarrow> 'a list \<Rightarrow> nat option" where
  "index_of c [] = None"
| "index_of c (x # xs) = (if c = x then Some 0 else map_option Suc (index_of c xs))"

fun decode_digits :: "string \<Rightarrow> nat list option" where
  "decode_digits [] = Some []"
| "decode_digits (c # cs) =
     (case index_of c encodeStd32 of
        None \<Rightarrow> None
      | Some v \<Rightarrow> map_option ((#) v) (decode_digits cs))"

definition base32_DecodeString :: "string \<Rightarrow> byte list option" where
  "base32_DecodeString s =
     map_option
       (\<lambda>ds. map (\<lambda>g. of_nat (nat_of_bits g))
               (filter (\<lambda>g. length g = 8) (chunks 8 (concat (map (bits_of_nat 5) ds)))))
       (decode_digits (filter (\<lambda>c. c \<noteq> CHR ''='') s))"

subsection \<open>\<^verbatim>\<open>strings\<close>\<close>

text \<open>
  \<^verbatim>\<open>strings.ToLower\<close> and \<^verbatim>\<open>strings.ToUpper\<close> on ASCII text, the only text the program
  passes to them: the 26 letters change case, every other byte is kept.
\<close>

definition lower_char :: "char \<Rightarrow> char" where
  "lower_char c =
     (let n = (of_char c :: nat) in if 65 \<le> n \<and> n \<le> 90 then char_of (n + 32) else c)"

definition upper_char :: "char \<Rightarrow> char" where
  "upper_char c =
     (let n = (of_char c :: nat) in if 97 \<le> n \<and> n \<le> 122 then char_of (n - 32) else c)"

definition ToLower :: "string \<Rightarrow> string" where
  "ToLower s = map lower_char s"

definition ToUpper :: "string \<Rightarrow> string" where
  "ToUpper s = map upper_char s"

text \<open>\<^verbatim>\<open>strings.HasPrefix(s, prefix)\<close> is \<^verbatim>\<open>len(s) >= len(prefix) && s[:len(prefix)] == prefix\<close>.\<close>

definition HasPrefix :: "string \<Rightarrow> string \<Rightarrow> bool" where
  "HasPrefix s p \<longleftrightarrow> length s \<ge> length p \<and> take (length p) s = p"

subsection \<open>SHA-512 (\<^verbatim>\<open>crypto/sha512\<close>, FIPS 180-4)\<close>

definition rotr64 :: "nat \<Rightarrow> u64 \<Rightarrow> u64" where
  "rotr64 n x = drop_bit n x OR push_bit (64 - n) x"

definition be_u64 :: "byte list \<Rightarrow> u64" where
  "be_u64 bs = foldl (\<lambda>acc b. push_bit 8 acc OR ucast b) 0 bs"

definition u64_be :: "u64 \<Rightarrow> byte list" where
  "u64_be w = map (\<lambda>i. ucast (drop_bit (8 * i) w)) [7, 6, 5, 4, 3, 2, 1, 0]"

text \<open>
  The round constants (the first 64 bits of the fractional parts of the cube roots of the
  first 80 primes) and the initial hash value (likewise, of the square roots of the first 8
  primes), in decimal.
\<close>

definition sha512_K :: "u64 list" where
  "sha512_K =
    [4794697086780616226, 8158064640168781261, 13096744586834688815,
     16840607885511220156, 4131703408338449720, 6480981068601479193,
     10538285296894168987, 12329834152419229976, 15566598209576043074,
     1334009975649890238, 2608012711638119052, 6128411473006802146,
     8268148722764581231, 9286055187155687089, 11230858885718282805,
     13951009754708518548, 16472876342353939154, 17275323862435702243,
     1135362057144423861, 2597628984639134821, 3308224258029322869,
     5365058923640841347, 6679025012923562964, 8573033837759648693,
     10970295158949994411, 12119686244451234320, 12683024718118986047,
     13788192230050041572, 14330467153632333762, 15395433587784984357,
     489312712824947311, 1452737877330783856, 2861767655752347644,
     3322285676063803686, 5560940570517711597, 5996557281743188959,
     7280758554555802590, 8532644243296465576, 9350256976987008742,
     10552545826968843579, 11727347734174303076, 12113106623233404929,
     14000437183269869457, 14369950271660146224, 15101387698204529176,
     15463397548674623760, 17586052441742319658, 1182934255886127544,
     1847814050463011016, 2177327727835720531, 2830643537854262169,
     3796741975233480872, 4115178125766777443, 5681478168544905931,
     6601373596472566643, 7507060721942968483, 8399075790359081724,
     8693463985226723168, 9568029438360202098, 10144078919501101548,
     10430055236837252648, 11840083180663258601, 13761210420658862357,
     14299343276471374635, 14566680578165727644, 15097957966210449927,
     16922976911328602910, 17689382322260857208, 500013540394364858,
     748580250866718886, 1242879168328830382, 1977374033974150939,
     2944078676154940804, 3659926193048069267, 4368137639120453308,
     4836135668995329356, 5532061633213252278, 6448918945643986474,
     6902733635092675308, 7801388544844847127]"

definition sha512_init :: "u64 list" where
  "sha512_init =
    [7640891576956012808, 13503953896175478587, 4354685564936845355,
     11912009170470909681, 5840696475078001361, 11170449401992604703,
     2270897969802886507, 6620516959819538809]"

text \<open>
  Padding: the byte \<open>0x80\<close>, zero bytes up to 16 bytes short of a multiple of 128, and the
  message length in bits as a 128-bit big-endian number (its upper half is zero for every
  message shorter than 2 ^ 61 bytes).
\<close>

definition sha512_pad :: "byte list \<Rightarrow> byte list" where
  "sha512_pad msg =
     msg @ [0x80] @ replicate ((128 - (length msg + 17) mod 128) mod 128) 0
       @ replicate 8 0 @ u64_be (of_nat (8 * length msg))"

definition ssig0 :: "u64 \<Rightarrow> u64" where
  "ssig0 x = rotr64 1 x XOR rotr64 8 x XOR drop_bit 7 x"

definition ssig1 :: "u64 \<Rightarrow> u64" where
  "ssig1 x = rotr64 19 x XOR rotr64 61 x XOR drop_bit 6 x"

definition bsig0 :: "u64 \<Rightarrow> u64" where
  "bsig0 x = rotr64 28 x XOR rotr64 34 x XOR rotr64 39 x"

definition bsig1 :: "u64 \<Rightarrow> u64" where
  "bsig1 x = rotr64 14 x XOR rotr64 18 x XOR rotr64 41 x"

text \<open>The message schedule: words 16 to 79 are appended to the 16 words of the block.\<close>

definition sha512_extend :: "u64 list \<Rightarrow> nat \<Rightarrow> u64 list" where
  "sha512_extend w t =
     w @ [ssig1 (w ! (t - 2)) + w ! (t - 7) + ssig0 (w ! (t - 15)) + w ! (t - 16)]"

definition sha512_schedule :: "u64 list \<Rightarrow> u64 list" where
  "sha512_schedule w16 = foldl sha512_extend w16 [16..<80]"

fun sha512_round :: "u64 list \<Rightarrow> u64 \<times> u64 \<Rightarrow> u64 list" where
  "sha512_round [a, b, c, d, e, f, g, h] (k, w) =
     (let t1 = h + bsig1 e + ((e AND f) XOR (NOT e AND g)) + k + w;
          t2 = bsig0 a + ((a AND b) XOR (a AND c) XOR (b AND c))
      in [t1 + t2, a, b, c, d + t1, e, f, g])"
| "sha512_round s kw = s"

definition sha512_block :: "u64 list \<Rightarrow> byte list \<Rightarrow> u64 list" where
  "sha512_block h blk =
     (let w = sha512_schedule (map be_u64 (chunks 8 blk))
      in map2 (+) h (foldl sha512_round h (zip sha512_K w)))"

definition sha512_Sum512 :: "byte list \<Rightarrow> byte list" where
  "sha512_Sum512 msg =
     concat (map u64_be (foldl sha512_block sha512_init (chunks 128 (sha512_pad msg))))"

subsection \<open>SHA3-256 (\<^verbatim>\<open>x/crypto/sha3\<close>, FIPS 202)\<close>

definition rotl64 :: "nat \<Rightarrow> u64 \<Rightarrow> u64" where
  "rotl64 n x = push_bit n x OR drop_bit (64 - n) x"

definition le_u64 :: "byte list \<Rightarrow> u64" where
  "le_u64 bs = foldr (\<lambda>b acc. push_bit 8 acc OR ucast b) bs 0"

definition u64_le :: "u64 \<Rightarrow> byte list" where
  "u64_le w = map (\<lambda>i. ucast (drop_bit (8 * i) w)) [0, 1, 2, 3, 4, 5, 6, 7]"

definition keccak_RC :: "u64 list" where
  "keccak_RC =
    [
     0x0000000000000001, 0x0000000000008082, 0x800000000000808a, 0x8000000080008000,
     0x000000000000808b, 0x0000000080000001, 0x8000000080008081, 0x8000000000008009,
     0x000000000000008a, 0x0000000000000088, 0x0000000080008009, 0x000000008000000a,
     0x000000008000808b, 0x800000000000008b, 0x8000000000008089, 0x8000000000008003,
     0x8000000000008002, 0x8000000000000080, 0x000000000000800a, 0x800000008000000a,
     0x8000000080008081, 0x8000000000008080, 0x0000000080000001, 0x8000000080008008]"

text \<open>
  The state is 25 lanes, lane \<open>(x, y)\<close> at index \<open>x + 5 * y\<close>.  \<open>keccak_rot\<close> are the
  rotation offsets of step \<open>\<rho>\<close> and \<open>keccak_pi ! j\<close> is the lane that step \<open>\<pi>\<close> moves to
  position \<open>j\<close>.
\<close>

definition keccak_rot :: "nat list" where
  "keccak_rot =
    [0, 1, 62, 28, 27, 36, 44, 6, 55, 20, 3, 10, 43, 25, 39, 41, 45, 15, 21, 8, 18, 2, 61, 56, 14]"

definition keccak_pi :: "nat list" where
  "keccak_pi =
    [0, 6, 12, 18, 24, 3, 9, 10, 16, 22, 1, 7, 13, 19, 20, 4, 5, 11, 17, 23, 2, 8, 14, 15, 21]"

definition keccak_round :: "u64 list \<Rightarrow> u64 \<Rightarrow> u64 list" where
  "keccak_round A rc =
     (let C = map (\<lambda>x. A ! x XOR A ! (x + 5) XOR A ! (x + 10) XOR A ! (x + 15) XOR A ! (x + 20))
                [0..<5];
          D = map (\<lambda>x. C ! ((x + 4) mod 5) XOR rotl64 1 (C ! ((x + 1) mod 5))) [0..<5];
          T = map (\<lambda>i. A ! i XOR D ! (i mod 5)) [0..<25];
          B = map (\<lambda>j. rotl64 (keccak_rot ! (keccak_pi ! j)) (T ! (keccak_pi ! j))) [0..<25];
          E = map (\<lambda>i. B ! i XOR (NOT (B ! ((i mod 5 + 1) mod 5 + 5 * (i div 5)))
                                    AND B ! ((i mod 5 + 2) mod 5 + 5 * (i div 5))))
                [0..<25]
      in E[0 := E ! 0 XOR rc])"

definition keccak_f1600 :: "u64 list \<Rightarrow> u64 list" where
  "keccak_f1600 A = foldl keccak_round A keccak_RC"

text \<open>Rate 136 bytes, domain-separation suffix \<open>0x06\<close>, final bit \<open>0x80\<close>.\<close>

definition sha3_pad :: "byte list \<Rightarrow> byte list" where
  "sha3_pad msg =
     (let q = 136 - length msg mod 136
      in if q = 1 then msg @ [0x86] else msg @ [0x06] @ replicate (q - 2) 0 @ [0x80])"

definition sha3_absorb :: "u64 list \<Rightarrow> byte list \<Rightarrow> u64 list" where
  "sha3_absorb A blk = keccak_f1600 (map2 (XOR) A (map le_u64 (chunks 8 blk) @ replicate 8 0))"

definition sha3_Sum256 :: "byte list \<Rightarrow> byte list" where
  "sha3_Sum256 msg =
     take 32 (concat (map u64_le (foldl sha3_absorb (replicate 25 0) (chunks 136 (sha3_pad msg)))))"

subsection \<open>Address derivation and key expansion\<close>

text \<open>
  \<^verbatim>\<open>encodePublicKey\<close>: the checksum is the hash of \<^verbatim>\<open>".onion checksum" || pubkey || 0x03\<close>,
  the address is the lower-cased base32 text of \<^verbatim>\<open>pubkey || checksum[:2] || 0x03\<close>.
\<close>

definition encodePublicKey :: "byte list \<Rightarrow> string" where
  "encodePublicKey publicKey =
     (let checksumBytes = bytes_of ''.onion checksum'' @ publicKey @ [0x03];
          checksum = sha3_Sum256 checksumBytes;
          onionAddressBytes = publicKey @ take 2 checksum @ [0x03];
          onionAddress = base32_EncodeToString onionAddressBytes
      in ToLower onionAddress)"

text \<open>
  \<^verbatim>\<open>expandSecretKey\<close>: the hash of \<^verbatim>\<open>secretKey[:32]\<close> with \<^verbatim>\<open>hash[0] &= 248\<close>,
  \<^verbatim>\<open>hash[31] &= 127\<close>, \<^verbatim>\<open>hash[31] |= 64\<close>.  The argument is an \<^verbatim>\<open>ed25519.PrivateKey\<close>,
  64 bytes long, so the slice expression cannot fail.
\<close>

definition expandSecretKey :: "byte list \<Rightarrow> byte list" where
  "expandSecretKey secretKey =
     (let hash = sha512_Sum512 (take 32 secretKey);
          hash = hash[0 := hash ! 0 AND 248];
          hash = hash[31 := hash ! 31 AND 127];
          hash = hash[31 := hash ! 31 OR 64]
      in hash)"

subsection \<open>The file system (\<^verbatim>\<open>os\<close>, \<^verbatim>\<open>io/ioutil\<close>)\<close>

text \<open>
  Paths are kept as the program writes them.  A file system has its directories, its
  regular files with their contents, the paths at which nothing may be created or opened
  for writing, and the free space of the device in bytes.  The working directory and the
  root always exist.
\<close>

datatype errno = ENOENT | ENOTDIR | EISDIR | EEXIST | EACCES | ENOSPC | EIO

record filesys =
  dirs :: "string set"
  files :: "string \<rightharpoonup> byte list"
  denied :: "string set"
  space :: nat

definition has_dir :: "filesys \<Rightarrow> string \<Rightarrow> bool" where
  "has_dir fs d \<longleftrightarrow> d = ''.'' \<or> d = ''/'' \<or> d \<in> dirs fs"

text \<open>The directory part of a path: the text before its last separator.\<close>

definition parent :: "string \<Rightarrow> string" where
  "parent p =
     (let d = rev (drop 1 (dropWhile (\<lambda>c. c \<noteq> CHR ''/'') (rev p)))
      in if CHR ''/'' \<notin> set p then ''.'' else if d = [] then ''/'' else d)"

text \<open>The directories \<^verbatim>\<open>os.MkdirAll\<close> visits: every proper ancestor, then the path.\<close>

fun ancestors :: "string \<Rightarrow> string \<Rightarrow> string list" where
  "ancestors acc [] = []"
| "ancestors acc (c # cs) =
     (if c = CHR ''/'' \<and> acc \<noteq> [] then [acc] else []) @ ancestors (acc @ [c]) cs"

definition Mkdir :: "filesys \<Rightarrow> string \<Rightarrow> errno option \<times> filesys" where
  "Mkdir fs d =
     (if has_dir fs d \<or> files fs d \<noteq> None then (Some EEXIST, fs)
      else if \<not> has_dir fs (parent d)
        then (Some (if files fs (parent d) \<noteq> None then ENOTDIR else ENOENT), fs)
      else if d \<in> denied fs then (Some EACCES, fs)
      else (None, fs\<lparr>dirs := insert d (dirs fs)\<rparr>))"

fun mkdir_chain :: "filesys \<Rightarrow> string list \<Rightarrow> errno option \<times> filesys" where
  "mkdir_chain fs [] = (None, fs)"
| "mkdir_chain fs (d # ds) =
     (if has_dir fs d then mkdir_chain fs ds
      else case Mkdir fs d of
             (Some err, fs') \<Rightarrow> (Some err, fs')
           | (None, fs') \<Rightarrow> mkdir_chain fs' ds)"

definition MkdirAll :: "filesys \<Rightarrow> string \<Rightarrow> errno option \<times> filesys" where
  "MkdirAll fs p =
     (if has_dir fs p then (None, fs)
      else if files fs p \<noteq> None then (Some ENOTDIR, fs)
      else mkdir_chain fs (ancestors [] p @ [p]))"

text \<open>\<^verbatim>\<open>os.OpenFile(name, O_CREATE|O_WRONLY|O_TRUNC, perm)\<close>.\<close>

definition OpenFile :: "filesys \<Rightarrow> string \<Rightarrow> errno + filesys" where
  "OpenFile fs name =
     (if \<not> has_dir fs (parent name)
        then Inl (if files fs (parent name) \<noteq> None then ENOTDIR else ENOENT)
      else if has_dir fs name then Inl EISDIR
      else if name \<in> denied fs then Inl EACCES
      else Inr (fs\<lparr>files := (files fs)(name \<mapsto> []),
                     space := space fs + (case files fs name of None \<Rightarrow> 0 | Some old \<Rightarrow> length old)\<rparr>))"

text \<open>
  Writing to an open file appends; when the device fills up, the bytes that fit are
  written and the call fails.
\<close>

definition file_Write :: "filesys \<Rightarrow> string \<Rightarrow> byte list \<Rightarrow> errno option \<times> filesys" where
  "file_Write fs name data =
     (let n = min (length data) (space fs);
          old = (case files fs name of None \<Rightarrow> [] | Some c \<Rightarrow> c);
          fs' = fs\<lparr>files := (files fs)(name \<mapsto> old @ take n data), space := space fs - n\<rparr>
      in (if n < length data then Some ENOSPC else None, fs'))"

definition WriteFile :: "filesys \<Rightarrow> string \<Rightarrow> byte list \<Rightarrow> errno option \<times> filesys" where
  "WriteFile fs name data =
     (case OpenFile fs name of
        Inl err \<Rightarrow> (Some err, fs)
      | Inr fs' \<Rightarrow> file_Write fs' name data)"

subsection \<open>The process: matches, observable events, outcomes\<close>

record PrefixMatch =
  Prefix :: string
  OnionAddr :: string
  PrivateKey :: string
  Attempts :: u64
  ElapsedTime :: u64

definition TorMode :: string where
  "TorMode = ''tor''"

definition BitcoinMode :: string where
  "BitcoinMode = ''bitcoin''"

text \<open>
  What the process does to its surroundings, in program order: lines printed, files
  written in full, matches sent on \<^verbatim>\<open>resultChan\<close>, and the calls of the batch writer with
  their arguments.  The summary line of a match (which formats a floating-point rate) and
  the error messages are kept as structured events.
\<close>

datatype event =
    Printed string
  | Summary PrefixMatch
  | ErrorMsg string string errno
  | FileWritten string
  | ChanSend PrefixMatch
  | BatchWrite "PrefixMatch list" string

record world =
  disk :: filesys
  trace :: "event list"

text \<open>A call returns, panics (\<^verbatim>\<open>checkErr\<close>) or ends the process (\<^verbatim>\<open>os.Exit\<close>).\<close>

datatype 'a outcome = Return 'a | Panic errno | Exit int

definition emit :: "event \<Rightarrow> world \<Rightarrow> world" where
  "emit e w = w\<lparr>trace := trace w @ [e]\<rparr>"

definition ioutil_WriteFile :: "string \<Rightarrow> byte list \<Rightarrow> world \<Rightarrow> errno option \<times> world" where
  "ioutil_WriteFile name data w =
     (case WriteFile (disk w) name data of
        (Some err, fs') \<Rightarrow> (Some err, w\<lparr>disk := fs'\<rparr>)
      | (None, fs') \<Rightarrow> (None, emit (FileWritten name) (w\<lparr>disk := fs'\<rparr>)))"

text \<open>\<^verbatim>\<open>checkErr(err)\<close> followed by the rest of the function.\<close>

definition checkErr ::
  "errno option \<times> world \<Rightarrow> (world \<Rightarrow> 'a outcome \<times> world) \<Rightarrow> 'a outcome \<times> world" where
  "checkErr r rest = (case r of (Some err, w) \<Rightarrow> (Panic err, w) | (None, w) \<Rightarrow> rest w)"

subsection \<open>\<^verbatim>\<open>saveTorFormat\<close>\<close>

text \<open>The result of \<^verbatim>\<open>os.MkdirAll\<close> is dropped by the program; the three writes are checked.\<close>

definition saveTorFormat ::
  "string \<Rightarrow> byte list \<Rightarrow> byte list \<Rightarrow> world \<Rightarrow> unit outcome \<times> world" where
  "saveTorFormat onionAddress publicKey secretKey w =
     (let w = w\<lparr>disk := snd (MkdirAll (disk w) onionAddress)\<rparr>;
          secretKeyFile = bytes_of ''== ed25519v1-secret: type0 =='' @ [0, 0, 0] @ secretKey;
          publicKeyFile = bytes_of ''== ed25519v1-public: type0 =='' @ [0, 0, 0] @ publicKey
      in checkErr (ioutil_WriteFile (onionAddress @ ''/hs_ed25519_secret_key'') secretKeyFile w)
           (\<lambda>w. checkErr (ioutil_WriteFile (onionAddress @ ''/hs_ed25519_public_key'') publicKeyFile w)
           (\<lambda>w. checkErr (ioutil_WriteFile (onionAddress @ ''/hostname'')
                             (bytes_of (onionAddress @ ''.onion'' @ [CHR 0x0A])) w)
           (\<lambda>w. (Return (), w)))))"

subsection \<open>\<^verbatim>\<open>saveBitcoinFormatMulti\<close>\<close>

text \<open>
  \<^verbatim>\<open>bufio.Writer\<close> with its default buffer of 4096 bytes: a string that fits is kept in the
  buffer; otherwise the buffer is filled and flushed, and the rest is buffered, or written
  directly when it is larger than the buffer.  A writer with an empty buffer passes a
  string larger than the buffer straight to the file.
\<close>

definition bufio_Flush :: "string \<Rightarrow> byte list \<Rightarrow> world \<Rightarrow> errno option \<times> world" where
  "bufio_Flush name buf w =
     (if buf = [] then (None, w)
      else case file_Write (disk w) name buf of (err, fs') \<Rightarrow> (err, w\<lparr>disk := fs'\<rparr>))"

definition bufio_WriteString ::
  "string \<Rightarrow> byte list \<Rightarrow> string \<Rightarrow> world \<Rightarrow> (errno + byte list) \<times> world" where
  "bufio_WriteString name buf s w =
     (let data = bytes_of s; avail = 4096 - length buf
      in if length data \<le> avail then (Inr (buf @ data), w)
         else if buf = [] then
           (case file_Write (disk w) name data of
              (Some err, fs') \<Rightarrow> (Inl err, w\<lparr>disk := fs'\<rparr>)
            | (None, fs') \<Rightarrow> (Inr [], w\<lparr>disk := fs'\<rparr>))
         else
           (case file_Write (disk w) name (buf @ take avail data) of
              (Some err, fs') \<Rightarrow> (Inl err, w\<lparr>disk := fs'\<rparr>)
            | (None, fs') \<Rightarrow>
                (let rest = drop avail data
                 in if length rest \<le> 4096 then (Inr rest, w\<lparr>disk := fs'\<rparr>)
                    else case file_Write fs' name rest of
                           (Some err, fs'') \<Rightarrow> (Inl err, w\<lparr>disk := fs''\<rparr>)
                         | (None, fs'') \<Rightarrow> (Inr [], w\<lparr>disk := fs''\<rparr>))))"

text \<open>The loop over the matches, with the writer's buffer, and the final flush.\<close>

fun write_matches ::
  "string \<Rightarrow> PrefixMatch list \<Rightarrow> byte list \<Rightarrow> world \<Rightarrow> unit outcome \<times> world" where
  "write_matches outputFile [] buf w =
     (case bufio_Flush outputFile buf w of
        (Some err, w') \<Rightarrow> (Exit 1, emit (ErrorMsg ''Error flushing data to file'' outputFile err) w')
      | (None, w') \<Rightarrow>
          (Return (), emit (Printed (''Bitcoin format keys saved to '' @ outputFile @ [CHR 0x0A])) w'))"
| "write_matches outputFile (match # matches) buf w =
     (let bitcoinKeyFormat = ''ED25519-V3:'' @ PrivateKey match @ [CHR 0x0A]
      in case bufio_WriteString outputFile buf bitcoinKeyFormat w of
           (Inl err, w') \<Rightarrow> (Exit 1, emit (ErrorMsg ''Error writing to file'' outputFile err) w')
         | (Inr buf', w') \<Rightarrow> write_matches outputFile matches buf' (emit (Summary match) w'))"

definition saveBitcoinFormatMulti ::
  "PrefixMatch list \<Rightarrow> string \<Rightarrow> world \<Rightarrow> unit outcome \<times> world" where
  "saveBitcoinFormatMulti matches outputPath w =
     (let w = emit (BatchWrite matches outputPath) w;
          outputFile = (if outputPath = [] then ''onion_v3_private_key'' else outputPath)
      in case OpenFile (disk w) outputFile of
           Inl err \<Rightarrow> (Exit 1, emit (ErrorMsg ''Error opening output file'' outputFile err) w)
         | Inr fs' \<Rightarrow> write_matches outputFile matches [] (w\<lparr>disk := fs'\<rparr>))"

subsection \<open>\<^verbatim>\<open>generate\<close>: the worker loop\<close>

text \<open>
  The search target and output settings a worker is started with.  \<open>re\<close> is the compiled
  pattern (\<open>None\<close> for \<^verbatim>\<open>nil\<close>), given by its \<^verbatim>\<open>MatchString\<close>.
\<close>

record config =
  re :: "(string \<Rightarrow> bool) option"
  cfg_prefixes :: "string list"
  outputMode :: string
  outputPath :: string

text \<open>
  One pass of the loop consumes what the environment supplies: the result of
  \<^verbatim>\<open>ed25519.GenerateKey\<close> (an error, or a 32-byte public and a 64-byte private key) and
  the reading of \<^verbatim>\<open>time.Since(startTime)\<close>.
\<close>

datatype keygen = KeyError errno | KeyPair "byte list" "byte list"

type_synonym draw = "keygen \<times> u64"

definition new_match :: "string \<Rightarrow> string \<Rightarrow> byte list \<Rightarrow> u64 \<Rightarrow> u64 \<Rightarrow> PrefixMatch" where
  "new_match p onionAddress secretKey attempts elapsed =
     \<lparr>Prefix = p, OnionAddr = onionAddress,
      PrivateKey = base64_EncodeToString (take 32 secretKey),
      Attempts = attempts, ElapsedTime = elapsed\<rparr>"

text \<open>The loop over the prefixes: the first prefix of the address is reported, then \<^verbatim>\<open>break\<close>.\<close>

fun match_prefixes :: "(string \<Rightarrow> PrefixMatch) \<Rightarrow> string \<Rightarrow> string list \<Rightarrow> world \<Rightarrow> world" where
  "match_prefixes mk onionAddress [] w = w"
| "match_prefixes mk onionAddress (p # ps) w =
     (if HasPrefix onionAddress p then emit (ChanSend (mk p)) w
      else match_prefixes mk onionAddress ps w)"

definition generate_iter :: "config \<Rightarrow> u64 \<Rightarrow> draw \<Rightarrow> world \<Rightarrow> u64 outcome \<times> world" where
  "generate_iter c attempts d w =
     (case fst d of
        KeyError err \<Rightarrow> (Panic err, w)
      | KeyPair publicKey secretKey \<Rightarrow>
          (let attempts = attempts + 1;
               onionAddress = encodePublicKey publicKey
           in if length (cfg_prefixes c) > 0 then
                (Return attempts,
                 match_prefixes (\<lambda>p. new_match p onionAddress secretKey attempts (snd d))
                   onionAddress (cfg_prefixes c) w)
              else if re c \<noteq> None \<and> the (re c) onionAddress then
                (let w = emit (Printed (onionAddress @ [CHR 0x0A])) w;
                     match = new_match [] onionAddress secretKey attempts (snd d)
                 in if outputMode c = TorMode then
                      (case saveTorFormat onionAddress publicKey (expandSecretKey secretKey) w of
                         (Return u, w') \<Rightarrow> (Return attempts, emit (ChanSend match) w')
                       | (Panic err, w') \<Rightarrow> (Panic err, w')
                       | (Exit n, w') \<Rightarrow> (Exit n, w'))
                    else (Return attempts, emit (ChanSend match) w))
              else (Return attempts, w)))"

text \<open>
  The loop never returns.  \<open>generate_loop\<close> runs it over the draws supplied so far and
  stops early on a panic; \<open>Return n\<close> says that the worker is still running, with its
  counter at \<open>n\<close>.
\<close>

fun generate_loop :: "config \<Rightarrow> u64 \<Rightarrow> draw list \<Rightarrow> world \<Rightarrow> u64 outcome \<times> world" where
  "generate_loop c attempts [] w = (Return attempts, w)"
| "generate_loop c attempts (d # ds) w =
     (case generate_iter c attempts d w of
        (Return attempts', w') \<Rightarrow> generate_loop c attempts' ds w'
      | (Panic err, w') \<Rightarrow> (Panic err, w')
      | (Exit n, w') \<Rightarrow> (Exit n, w'))"

definition generate :: "config \<Rightarrow> draw list \<Rightarrow> world \<Rightarrow> u64 outcome \<times> world" where
  "generate c ds w = generate_loop c 0 ds w"

subsection \<open>The collector goroutine of \<^verbatim>\<open>main\<close>\<close>

text \<open>
  \<open>number\<close> is a Go \<^verbatim>\<open>int\<close> (64 bits), at least 1 when the collector starts;
  \<open>matchCount\<close> is an \<^verbatim>\<open>int32\<close>, and the test is \<^verbatim>\<open>matchCount >= int32(number)\<close>.
\<close>

record collector =
  matches :: "PrefixMatch list"
  matchCount :: "32 word"

definition int32 :: "u64 \<Rightarrow> 32 word" where
  "int32 n = ucast n"

definition collect_recv ::
  "string \<Rightarrow> string \<Rightarrow> u64 \<Rightarrow> collector \<Rightarrow> PrefixMatch \<Rightarrow> world \<Rightarrow> collector outcome \<times> world" where
  "collect_recv mode path number st match w =
     (let st = st\<lparr>matches := matches st @ [match], matchCount := matchCount st + 1\<rparr>
      in if int32 number \<le>s matchCount st then
           (if mode = BitcoinMode then
              (case saveBitcoinFormatMulti (matches st) path w of
                 (Return u, w') \<Rightarrow> (Exit 0, w')
               | (Panic err, w') \<Rightarrow> (Panic err, w')
               | (Exit n, w') \<Rightarrow> (Exit n, w'))
            else (Exit 0, w))
         else (Return st, w))"

fun collect_loop ::
  "string \<Rightarrow> string \<Rightarrow> u64 \<Rightarrow> collector \<Rightarrow> PrefixMatch list \<Rightarrow> world \<Rightarrow> collector outcome \<times> world" where
  "collect_loop mode path number st [] w = (Return st, w)"
| "collect_loop mode path number st (m # ms) w =
     (case collect_recv mode path number st m w of
        (Return st', w') \<Rightarrow> collect_loop mode path number st' ms w'
      | (Panic err, w') \<Rightarrow> (Panic err, w')
      | (Exit n, w') \<Rightarrow> (Exit n, w'))"

definition collect ::
  "string \<Rightarrow> string \<Rightarrow> u64 \<Rightarrow> PrefixMatch list \<Rightarrow> world \<Rightarrow> collector outcome \<times> world" where
  "collect mode path number received w =
     collect_loop mode path number \<lparr>matches = [], matchCount = 0\<rparr> received w"

subsection \<open>A concrete key pair\<close>

text \<open>
  The ed25519 key pair of the all-zero seed: the private key is the seed followed by the
  public key.  \<open>zero_seed_schedule\<close> and \<open>zero_seed_digest\<close> are the SHA-512 message
  schedule and digest of the seed, used to evaluate \<open>expandSecretKey\<close> on this key.
\<close>

definition zero_seed_public :: "byte list" where
  "zero_seed_public =
    [0x3b, 0x6a, 0x27, 0xbc, 0xce, 0xb6, 0xa4, 0x2d, 0x62, 0xa3, 0xa8, 0xd0, 0x2a, 0x6f, 0x0d, 0x73,
     0x65, 0x32, 0x15, 0x77, 0x1d, 0xe2, 0x43, 0xa6, 0x3a, 0xc0, 0x48, 0xa1, 0x8b, 0x59, 0xda, 0x29]"

definition zero_seed_private :: "byte list" where
  "zero_seed_private = replicate 32 0 @ zero_seed_public"

definition zero_seed_schedule :: "u64 list" where
  "zero_seed_schedule =
    [0x0000000000000000, 0x0000000000000000, 0x0000000000000000, 0x0000000000000000,
     0x8000000000000000, 0x0000000000000000, 0x0000000000000000, 0x0000000000000000,
     0x0000000000000000, 0x0000000000000000, 0x0000000000000000, 0x0000000000000000,
     0x0000000000000000, 0x0000000000000000, 0x0000000000000000, 0x0000000000000100,
     0x0000000000000000, 0x0020000000000804, 0x0000000000000000, 0x4180000400004000,
     0x8000000000000000, 0x0506081010028102, 0x0200100000000104, 0x7804180001560014,
     0x1048000002001028, 0x01c25f6089b55889, 0xc184220d1008c140, 0x2504d2418460001c,
     0x1c1520e0404a0c04, 0x2ab115e5bf59b171, 0x195de80328a340b0, 0x73544e2c508c6bcf,
     0xa86ef3f37e6e4a39, 0xd7baf03dccedaf09, 0xcd98639d7155a804, 0xaa7d71be0ea3c373,
     0x863308cceaa6b11f, 0x4c9605bc5bb91777, 0x8381d8d658bbf649, 0x87f4805a6cdc2701,
     0x52b04b315bd5c960, 0xaa37408b39987f7b, 0xa8d38b1132105c1e, 0x1264363c78218664,
     0x9c8f44293298ddad, 0x0e5ca46d5f692790, 0x154ff3eacac0b155, 0x0902b47c31d100e4,
     0xf24bedbd5b7e7c5e, 0x4c563cc946f7fb3a, 0xe5da753d01e2e4cd, 0xc1887e9a36e6835c,
     0xd80be292e8f726f1, 0xca58b4c44d6ac641, 0x77d7eb1cd3b12521, 0xcd156118335c4f04,
     0xeab0ab2eb7f8d3bf, 0xbe222bc53be592a4, 0x23b9277ef20c2980, 0x8f0f8dead1f01918,
     0x969c8be4e79f6f74, 0xdf2ff9ec62d3b8c8, 0x1e5072c0d8f18eb6, 0xa700f5f4ac47964d,
     0x909a11ac5acc9d26, 0x7724d0dcaf2ab3c1, 0xc7a6e22dae35b829, 0x6315333073bb1e04,
     0xe5db424fd17e5e8b, 0xfe01f6666d78a922, 0x6952740d8ef375cb, 0x8feae2598309b2f1,
     0x82387440490441b7, 0x62b7ef820635ccad, 0x80e2e4a704df79c5, 0x6180c0a1c69c804d,
     0x25c12dfe41631493, 0x9f16e22dcac34d14, 0x99b0e0fc7f75262a, 0x2c9fea1e0c49d000]"

definition zero_seed_digest :: "byte list" where
  "zero_seed_digest =
    [0x50, 0x46, 0xad, 0xc1, 0xdb, 0xa8, 0x38, 0x86, 0x7b, 0x2b, 0xbb, 0xfd, 0xd0, 0xc3, 0x42, 0x3e,
     0x58, 0xb5, 0x79, 0x70, 0xb5, 0x26, 0x7a, 0x90, 0xf5, 0x79, 0x60, 0x92, 0x4a, 0x87, 0xf1, 0x96,
     0x0a, 0x6a, 0x85, 0xea, 0xa6, 0x42, 0xda, 0xc8, 0x35, 0x42, 0x4b, 0x5d, 0x7c, 0x8d, 0x63, 0x7c,
     0x00, 0x40, 0x8c, 0x7a, 0x73, 0xda, 0x67, 0x2b, 0x7f, 0x49, 0x85, 0x21, 0x42, 0x0b, 0x6d, 0xd3]"

subsection \<open>Concrete surroundings\<close>

text \<open>
  An empty working directory on a device with room for \<open>n\<close> bytes, a pattern that
  accepts every address, a prefix list, and a draw of the key pair of the all-zero seed.
\<close>

definition fresh_world :: "nat \<Rightarrow> world" where
  "fresh_world n = \<lparr>disk = \<lparr>dirs = {}, files = Map.empty, denied = {}, space = n\<rparr>, trace = []\<rparr>"

definition any_address :: "string \<Rightarrow> bool" where
  "any_address a = True"

definition zero_seed_draw :: draw where
  "zero_seed_draw = (KeyPair zero_seed_public zero_seed_private, 0)"

definition pattern_config :: "string \<Rightarrow> config" where
  "pattern_config mode = \<lparr>re = Some any_address, cfg_prefixes = [], outputMode = mode, outputPath = []\<rparr>"

section \<open>Encodings\<close>

lemma length_bits_of_nat [simp]: "length (bits_of_nat k n) = k"
  by (induction k) simp_all

lemma nat_of_bits_lt: "nat_of_bits bs < 2 ^ length bs"
  by (induction bs) (auto simp: of_bool_def)

lemma nat_of_bits_of_nat: "nat_of_bits (bits_of_nat k n) = n mod 2 ^ k"
proof (induction k)
  case 0
  then show ?case by simp
next
  case (Suc k)
  have "n mod 2 ^ Suc k = of_bool (bit n k) * 2 ^ k + n mod 2 ^ k"
    using take_bit_Suc_from_most [of k n] by (simp add: take_bit_eq_mod)
  with Suc show ?case by simp
qed

lemma bits_of_nat_cong: "m mod 2 ^ k = n mod 2 ^ k \<Longrightarrow> bits_of_nat k m = bits_of_nat k n"
proof (induction k)
  case 0
  then show ?case by simp
next
  case (Suc k)
  from Suc.prems have t: "take_bit (Suc k) m = take_bit (Suc k) n"
    by (simp add: take_bit_eq_mod)
  then have "bit (take_bit (Suc k) m) k = bit (take_bit (Suc k) n) k" by simp
  then have b: "bit m k = bit n k" by (simp add: bit_take_bit_iff)
  from t have "take_bit k (take_bit (Suc k) m) = take_bit k (take_bit (Suc k) n)" by simp
  then have "take_bit k m = take_bit k n" by (simp add: min_def)
  then have "m mod 2 ^ k = n mod 2 ^ k" by (simp add: take_bit_eq_mod)
  with Suc.IH b show ?case by simp
qed

lemma bits_of_nat_of_bits: "bits_of_nat (length bs) (nat_of_bits bs) = bs"
proof (induction bs)
  case Nil
  then show ?case by simp
next
  case (Cons b bs)
  let ?k = "length bs"
  have lt: "nat_of_bits bs < 2 ^ ?k" by (rule nat_of_bits_lt)
  have "(of_bool b * 2 ^ ?k + nat_of_bits bs) mod 2 ^ ?k = nat_of_bits bs mod 2 ^ ?k"
    by simp
  then have low: "bits_of_nat ?k (of_bool b * 2 ^ ?k + nat_of_bits bs) = bs"
    using bits_of_nat_cong Cons.IH by metis
  have "(of_bool b * 2 ^ ?k + nat_of_bits bs) div 2 ^ ?k = of_bool b"
    using lt by simp
  then have "bit (of_bool b * 2 ^ ?k + nat_of_bits bs) ?k = b"
    by (simp add: bit_iff_odd)
  with low show ?case by simp
qed

lemma concat_chunks: "0 < n \<Longrightarrow> concat (chunks n xs) = xs"
proof (induction n xs rule: chunks.induct)
  case (1 n)
  then show ?case by simp
next
  case (2 n x xs)
  then show ?case by (simp del: take.simps drop.simps add: append_take_drop_id)
qed

lemma chunks_append: "0 < length g \<Longrightarrow> chunks (length g) (g @ xs) = g # chunks (length g) xs"
  by (cases g) simp_all

lemma chunks_concat:
  "0 < n \<Longrightarrow> \<forall>g \<in> set gs. length g = n \<Longrightarrow> chunks n (concat gs) = gs"
proof (induction gs)
  case Nil
  then show ?case by simp
next
  case (Cons g gs)
  then have "length g = n" by simp
  with Cons show ?case using chunks_append [of g "concat gs"] by simp
qed

lemma chunks_step: "0 < n \<Longrightarrow> xs \<noteq> [] \<Longrightarrow> chunks n xs = take n xs # chunks n (drop n xs)"
  by (cases xs) (simp_all del: take.simps drop.simps)

lemma chunks_full:
  "0 < n \<Longrightarrow> n dvd length xs \<Longrightarrow> g \<in> set (chunks n xs) \<Longrightarrow> length g = n"
proof (induction xs arbitrary: g rule: length_induct)
  case (1 xs)
  show ?case
  proof (cases "xs = []")
    case True
    with 1(4) show ?thesis by simp
  next
    case False
    have le: "n \<le> length xs" using False 1(3) by (auto dest: dvd_imp_le)
    have shorter: "length (drop n xs) < length xs" using False 1(2) by simp
    have d: "n dvd length (drop n xs)" using 1(3) by (simp add: dvd_diff_nat)
    from 1(4) chunks_step [OF 1(2) False]
    have "g = take n xs \<or> g \<in> set (chunks n (drop n xs))" by simp
    then show ?thesis
    proof
      assume "g = take n xs"
      with le show ?thesis by simp
    next
      assume "g \<in> set (chunks n (drop n xs))"
      with 1(1) shorter 1(2) d show ?thesis by blast
    qed
  qed
qed

lemma length_chunks: "0 < n \<Longrightarrow> n dvd length xs \<Longrightarrow> length (chunks n xs) = length xs div n"
proof (induction xs rule: length_induct)
  case (1 xs)
  show ?case
  proof (cases "xs = []")
    case True
    then show ?thesis by simp
  next
    case False
    have le: "n \<le> length xs" using False 1(3) by (auto dest: dvd_imp_le)
    have shorter: "length (drop n xs) < length xs" using False 1(2) by simp
    have d: "n dvd length (drop n xs)" using 1(3) by (simp add: dvd_diff_nat)
    have "length (chunks n (drop n xs)) = length (drop n xs) div n"
      using 1(1) shorter 1(2) d by blast
    moreover have "length xs div n = Suc ((length xs - n) div n)"
      using le 1(2) by (simp add: le_div_geq)
    ultimately show ?thesis using chunks_step [OF 1(2) False] by simp
  qed
qed

lemma length_bits_of_bytes [simp]: "length (bits_of_bytes bs) = 8 * length bs"
  by (induction bs) (simp_all add: bits_of_bytes_def)

lemma index_of_nth: "distinct xs \<Longrightarrow> i < length xs \<Longrightarrow> index_of (xs ! i) xs = Some i"
proof (induction xs arbitrary: i)
  case Nil
  then show ?case by simp
next
  case (Cons x xs)
  then show ?case by (cases i) auto
qed

lemma nat_of_bits_append_zeros: "nat_of_bits (g @ []) = nat_of_bits g"
  by simp

lemma distinct_encodeStd32: "distinct encodeStd32"
  by (simp add: encodeStd32_def)

lemma length_encodeStd32: "length encodeStd32 = 32"
  by (simp add: encodeStd32_def)

lemma pad_char_not_in_encodeStd32: "CHR ''='' \<notin> set encodeStd32"
  by (simp add: encodeStd32_def)

lemma encodeStd32_cases:
  "list_all (\<lambda>c. lower_char c \<in> set ''abcdefghijklmnopqrstuvwxyz234567''
                 \<and> upper_char (lower_char c) = c) encodeStd32"
  by code_simp

lemma lower_in_alphabet:
  "c \<in> set encodeStd32 \<Longrightarrow> lower_char c \<in> set ''abcdefghijklmnopqrstuvwxyz234567''"
  using encodeStd32_cases by (simp add: list_all_iff)

lemma upper_lower_encodeStd32: "c \<in> set encodeStd32 \<Longrightarrow> upper_char (lower_char c) = c"
  using encodeStd32_cases by (simp add: list_all_iff)

lemma base32_groups:
  assumes "5 dvd length src"
  shows "base32_EncodeToString src =
           map (\<lambda>g. encodeStd32 ! nat_of_bits g) (chunks 5 (bits_of_bytes src))"
proof -
  let ?gs = "chunks 5 (bits_of_bytes src)"
  from assms have d: "5 dvd length (bits_of_bytes src)" by simp
  have full: "\<And>g. g \<in> set ?gs \<Longrightarrow> length g = 5"
    using chunks_full [OF _ d] by simp
  have digits: "map (encode_digit encodeStd32 5) ?gs = map (\<lambda>g. encodeStd32 ! nat_of_bits g) ?gs"
    by (rule map_cong) (simp_all add: encode_digit_def full)
  from assms obtain k where k: "length src = 5 * k" by (auto elim: dvdE)
  have "length ?gs = length (bits_of_bytes src) div 5"
    using length_chunks [OF _ d] by simp
  then have "length ?gs = 8 * k" using k by simp
  then have "(8 - length ?gs mod 8) mod 8 = 0" by simp
  then show ?thesis
    by (simp add: base32_EncodeToString_def encode_radix_def Let_def digits)
qed

lemma base32_length: "5 dvd length src \<Longrightarrow> 5 * length (base32_EncodeToString src) = 8 * length src"
proof -
  assume a: "5 dvd length src"
  then have d: "5 dvd length (bits_of_bytes src)" by simp
  have "length (chunks 5 (bits_of_bytes src)) = length (bits_of_bytes src) div 5"
    using length_chunks [OF _ d] by simp
  with a show ?thesis by (auto simp add: base32_groups elim: dvdE)
qed

lemma base32_alphabet:
  assumes "5 dvd length src" and "c \<in> set (base32_EncodeToString src)"
  shows "c \<in> set encodeStd32"
proof -
  from assms(1) have d: "5 dvd length (bits_of_bytes src)" by simp
  from assms obtain g where g: "g \<in> set (chunks 5 (bits_of_bytes src))"
    and c: "c = encodeStd32 ! nat_of_bits g"
    by (auto simp add: base32_groups)
  have "length g = 5" using chunks_full [OF _ d g] by simp
  then have "nat_of_bits g < 32" using nat_of_bits_lt [of g] by simp
  then show ?thesis by (simp add: c length_encodeStd32)
qed

lemma decode_digits_groups:
  "\<forall>g \<in> set gs. length g = 5 \<Longrightarrow>
     decode_digits (map (\<lambda>g. encodeStd32 ! nat_of_bits g) gs) = Some (map nat_of_bits gs)"
proof (induction gs)
  case Nil
  then show ?case by simp
next
  case (Cons g gs)
  then have "length g = 5" by simp
  then have "nat_of_bits g < length encodeStd32"
    using nat_of_bits_lt [of g] by (simp add: length_encodeStd32)
  then have "index_of (encodeStd32 ! nat_of_bits g) encodeStd32 = Some (nat_of_bits g)"
    by (rule index_of_nth [OF distinct_encodeStd32])
  with Cons show ?case by simp
qed

lemma bytes_of_bits: "map (\<lambda>g. of_nat (nat_of_bits g)) (map (\<lambda>b. bits_of_nat 8 (unat b)) src) = (src :: byte list)"
proof (induction src)
  case Nil
  then show ?case by simp
next
  case (Cons b src)
  have "(of_nat (nat_of_bits (bits_of_nat 8 (unat b))) :: byte) = of_nat (unat b mod 2 ^ 8)"
    by (simp only: nat_of_bits_of_nat)
  also have "\<dots> = b"
  proof -
    have "unat b < 256" by (rule order_less_le_trans [OF unsigned_less]) simp
    then show ?thesis by simp
  qed
  finally have "(of_nat (nat_of_bits (bits_of_nat 8 (unat b))) :: byte) = b" .
  with Cons show ?case by simp
qed

lemma base32_roundtrip:
  assumes "5 dvd length src"
  shows "base32_DecodeString (base32_EncodeToString src) = Some src"
proof -
  let ?bits = "bits_of_bytes src"
  let ?gs = "chunks 5 ?bits"
  from assms have d: "5 dvd length ?bits" by simp
  have full: "\<forall>g \<in> set ?gs. length g = 5"
    using chunks_full [OF _ d] by simp
  have nopad: "filter (\<lambda>c. c \<noteq> CHR ''='') (base32_EncodeToString src) = base32_EncodeToString src"
    using base32_alphabet [OF assms] pad_char_not_in_encodeStd32 by (auto simp add: filter_id_conv)
  have digits: "decode_digits (base32_EncodeToString src) = Some (map nat_of_bits ?gs)"
    using decode_digits_groups [OF full] by (simp add: base32_groups [OF assms])
  have "map (bits_of_nat 5) (map nat_of_bits ?gs) = ?gs"
  proof -
    have "\<And>g. g \<in> set ?gs \<Longrightarrow> bits_of_nat 5 (nat_of_bits g) = g"
      using full bits_of_nat_of_bits by metis
    then show ?thesis by (simp add: map_idI)
  qed
  then have bits: "concat (map (bits_of_nat 5) (map nat_of_bits ?gs)) = ?bits"
    by (simp only: concat_chunks [of 5 ?bits, simplified])
  have eights: "chunks 8 ?bits = map (\<lambda>b. bits_of_nat 8 (unat b)) src"
    unfolding bits_of_bytes_def by (rule chunks_concat) simp_all
  have "filter (\<lambda>g. length g = 8) (map (\<lambda>b. bits_of_nat 8 (unat b)) src)
          = map (\<lambda>b. bits_of_nat 8 (unat b)) src"
    by (simp add: filter_id_conv)
  then show ?thesis
    unfolding base32_DecodeString_def nopad digits
    by (simp only: option.map bits eights bytes_of_bits)
qed

lemma ToUpper_ToLower_base32:
  "5 dvd length src \<Longrightarrow> ToUpper (ToLower (base32_EncodeToString src)) = base32_EncodeToString src"
  unfolding ToUpper_def ToLower_def
  by (simp add: map_idI upper_lower_encodeStd32 base32_alphabet)

section \<open>Digest lengths and the clamp\<close>

lemma length_keccak_round [simp]: "length (keccak_round A rc) = 25"
  by (simp add: keccak_round_def Let_def)

lemma length_keccak_rounds: "rcs \<noteq> [] \<Longrightarrow> length (foldl keccak_round A rcs) = 25"
  by (induction rcs rule: rev_induct) simp_all

lemma length_sha3_absorb [simp]: "length (sha3_absorb A blk) = 25"
  unfolding sha3_absorb_def keccak_f1600_def
  by (rule length_keccak_rounds) (simp add: keccak_RC_def)

lemma length_sha3_blocks: "blks \<noteq> [] \<Longrightarrow> length (foldl sha3_absorb A blks) = 25"
  by (induction blks rule: rev_induct) simp_all

lemma sha3_pad_nonempty: "sha3_pad msg \<noteq> []"
  by (simp add: sha3_pad_def Let_def)

lemma chunks_nonempty: "xs \<noteq> [] \<Longrightarrow> chunks n xs \<noteq> []"
  by (cases xs) simp_all

lemma length_concat_u64_le: "length (concat (map u64_le A)) = 8 * length A"
  by (induction A) (simp_all add: u64_le_def)

lemma length_sha3_Sum256 [simp]: "length (sha3_Sum256 msg) = 32"
proof -
  have "length (foldl sha3_absorb (replicate 25 0) (chunks 136 (sha3_pad msg))) = 25"
    by (rule length_sha3_blocks) (rule chunks_nonempty, rule sha3_pad_nonempty)
  then show ?thesis
    by (simp add: sha3_Sum256_def length_concat_u64_le)
qed

lemma length_sha512_round [simp]: "length (sha512_round s kw) = length s"
  by (cases "(s, kw)" rule: sha512_round.cases) (simp_all add: Let_def)

lemma length_sha512_rounds [simp]: "length (foldl sha512_round s kws) = length s"
  by (induction kws arbitrary: s) simp_all

lemma length_sha512_block [simp]: "length (sha512_block h blk) = length h"
  by (simp add: sha512_block_def Let_def)

lemma length_sha512_blocks [simp]: "length (foldl sha512_block h blks) = length h"
  by (induction blks arbitrary: h) simp_all

lemma length_concat_u64_be: "length (concat (map u64_be A)) = 8 * length A"
  by (induction A) (simp_all add: u64_be_def)

lemma length_sha512_Sum512 [simp]: "length (sha512_Sum512 msg) = 64"
  by (simp add: sha512_Sum512_def length_concat_u64_be sha512_init_def)

lemma length_expandSecretKey [simp]: "length (expandSecretKey secretKey) = 64"
  by (simp add: expandSecretKey_def Let_def)

lemma clamp_low_bits: "(x AND 248) AND 7 = (0 :: byte)"
  by (simp add: and.assoc)

lemma clamp_high_bit: "((x AND 127) OR 64) AND 128 = (0 :: byte)"
  by (simp add: bit.conj_disj_distrib2 and.assoc)

lemma clamp_bit_six: "((x AND 127) OR 64) AND 64 = (64 :: byte)"
  by (simp add: bit.conj_disj_distrib2 and.assoc)

lemma expandSecretKey_bytes:
  "expandSecretKey secretKey ! i =
     (let hash = sha512_Sum512 (take 32 secretKey)
      in if i = 0 then hash ! 0 AND 248
         else if i = 31 then (hash ! 31 AND 127) OR 64
         else hash ! i)"
  by (simp add: expandSecretKey_def Let_def nth_list_update)

section \<open>Address derivation\<close>

text \<open>
  \<^bold>\<open>C1\<close>.  For every 32-byte public key, \<open>encodePublicKey\<close> returns 56 characters of the
  lower-case base32 alphabet, equal to the lower-cased base32 text of
  \<open>publicKey || checksum || 0x03\<close>, where \<open>checksum\<close> is the first 2 bytes of the SHA3-256
  digest of \<open>".onion checksum" || publicKey || 0x03\<close>; decoding the address (upper-cased, as
  the standard alphabet demands) gives back the public key, that checksum and the version
  byte.
\<close>

theorem encodePublicKey_layout:
  "length publicKey = 32 \<Longrightarrow>
     (let checksum = take 2 (sha3_Sum256 (bytes_of ''.onion checksum'' @ publicKey @ [0x03]));
          address = encodePublicKey publicKey
      in length address = 56
       \<and> set address \<subseteq> set ''abcdefghijklmnopqrstuvwxyz234567''
       \<and> address = ToLower (base32_EncodeToString (publicKey @ checksum @ [0x03]))
       \<and> length checksum = 2
       \<and> base32_DecodeString (ToUpper address) = Some (publicKey @ checksum @ [0x03]))"
proof -
  assume len: "length publicKey = 32"
  define checksum where
    "checksum = take 2 (sha3_Sum256 (bytes_of ''.onion checksum'' @ publicKey @ [0x03]))"
  define payload where "payload = publicKey @ checksum @ [0x03]"
  have c2: "length checksum = 2" by (simp add: checksum_def)
  have p35: "length payload = 35" by (simp add: payload_def len c2)
  then have d: "5 dvd length payload" by simp
  have addr: "encodePublicKey publicKey = ToLower (base32_EncodeToString payload)"
    by (simp add: encodePublicKey_def Let_def payload_def checksum_def)
  have "5 * length (base32_EncodeToString payload) = 8 * 35"
    using base32_length [OF d] p35 by simp
  then have l56: "length (encodePublicKey publicKey) = 56"
    by (simp add: addr ToLower_def)
  have alpha: "set (encodePublicKey publicKey) \<subseteq> set ''abcdefghijklmnopqrstuvwxyz234567''"
    unfolding addr ToLower_def using base32_alphabet [OF d] lower_in_alphabet by auto
  have dec: "base32_DecodeString (ToUpper (encodePublicKey publicKey)) = Some payload"
    by (simp only: addr ToUpper_ToLower_base32 [OF d] base32_roundtrip [OF d])
  show ?thesis
    unfolding Let_def checksum_def [symmetric]
    using l56 alpha addr c2 dec by (simp add: payload_def)
qed

theorem encodePublicKey_layout_witness:
  "length (replicate 32 (0 :: byte)) = 32 \<and>
     (let checksum = take 2 (sha3_Sum256 (bytes_of ''.onion checksum'' @ replicate 32 0 @ [0x03]));
          address = encodePublicKey (replicate 32 0)
      in length address = 56
       \<and> set address \<subseteq> set ''abcdefghijklmnopqrstuvwxyz234567''
       \<and> address = ToLower (base32_EncodeToString (replicate 32 0 @ checksum @ [0x03]))
       \<and> length checksum = 2
       \<and> base32_DecodeString (ToUpper address) = Some (replicate 32 0 @ checksum @ [0x03]))"
  using encodePublicKey_layout [of "replicate 32 0"] by simp

section \<open>Secret-key expansion\<close>

text \<open>
  \<^bold>\<open>C2\<close> (as amended).  For every 32-byte seed, \<open>expandSecretKey\<close> returns the 64-byte
  SHA-512 digest of the seed with the 3 low bits of byte 0 cleared, the high bit of byte 31
  cleared and bit 6 of byte 31 set, every other byte unchanged; so byte 0 of the result
  has its low 3 bits clear and byte 31, the last byte of the scalar half, has its high bit
  clear and bit 6 set.
\<close>

theorem expandSecretKey_clamped:
  "length seed = 32 \<Longrightarrow> length rest = 32 \<Longrightarrow>
     (let hash = sha512_Sum512 seed; expanded = expandSecretKey (seed @ rest)
      in length expanded = 64
       \<and> expanded ! 0 = hash ! 0 AND 248
       \<and> expanded ! 31 = (hash ! 31 AND 127) OR 64
       \<and> (\<forall>i < 64. i \<noteq> 0 \<and> i \<noteq> 31 \<longrightarrow> expanded ! i = hash ! i)
       \<and> expanded ! 0 AND 7 = 0
       \<and> expanded ! 31 AND 128 = 0
       \<and> expanded ! 31 AND 64 = 64)"
  by (simp add: Let_def expandSecretKey_bytes clamp_low_bits clamp_high_bit clamp_bit_six)

theorem expandSecretKey_clamped_witness:
  "length (replicate 32 (0 :: byte)) = 32 \<and> length zero_seed_public = 32 \<and>
     (let hash = sha512_Sum512 (replicate 32 0); expanded = expandSecretKey zero_seed_private
      in length expanded = 64
       \<and> expanded ! 0 = hash ! 0 AND 248
       \<and> expanded ! 31 = (hash ! 31 AND 127) OR 64
       \<and> (\<forall>i < 64. i \<noteq> 0 \<and> i \<noteq> 31 \<longrightarrow> expanded ! i = hash ! i)
       \<and> expanded ! 0 AND 7 = 0
       \<and> expanded ! 31 AND 128 = 0
       \<and> expanded ! 31 AND 64 = 64)"
proof -
  have l: "length zero_seed_public = 32" by (simp add: zero_seed_public_def)
  from expandSecretKey_clamped [of "replicate 32 0" zero_seed_public] l
  show ?thesis by (simp add: zero_seed_private_def)
qed

text \<open>
  \<^bold>\<open>C9\<close>.  The expansion reads only the first 32 bytes of the 64-byte private key: two
  private keys with the same first half have the same expansion.
\<close>

theorem expandSecretKey_seed_only:
  "length secretKey = 64 \<Longrightarrow> length secretKey' = 64 \<Longrightarrow>
   take 32 secretKey = take 32 secretKey' \<Longrightarrow>
   expandSecretKey secretKey = expandSecretKey secretKey'"
  by (simp add: expandSecretKey_def)

theorem expandSecretKey_seed_only_witness:
  "length (replicate 64 (0 :: byte)) = 64 \<and> length (replicate 32 (0 :: byte) @ replicate 32 1) = 64
   \<and> take 32 (replicate 64 (0 :: byte)) = take 32 (replicate 32 0 @ replicate 32 1)
   \<and> replicate 64 (0 :: byte) \<noteq> replicate 32 0 @ replicate 32 1
   \<and> expandSecretKey (replicate 64 0) = expandSecretKey (replicate 32 0 @ replicate 32 1)"
proof -
  have t: "take 32 (replicate 64 (0 :: byte)) = take 32 (replicate 32 0 @ replicate 32 1)"
    by simp
  have ne: "replicate 64 (0 :: byte) \<noteq> replicate 32 0 @ replicate 32 1"
  proof
    assume "replicate 64 (0 :: byte) = replicate 32 0 @ replicate 32 1"
    then have "replicate 64 (0 :: byte) ! 32 = (replicate 32 0 @ replicate 32 1) ! 32" by simp
    then show False by (simp add: nth_append)
  qed
  show ?thesis
    using expandSecretKey_seed_only [of "replicate 64 0" "replicate 32 0 @ replicate 32 1"] t ne
    by simp
qed

subsection \<open>SHA-512 of the all-zero seed\<close>

text \<open>
  The digest is evaluated by rewriting.  Rotations and additions of numerals are reduced
  modulo 2 ^ 64 at once, so that intermediate numerals stay small.
\<close>

lemma replicate_numeral: "replicate (numeral k) x = x # replicate (pred_numeral k) x"
  by (simp add: numeral_eq_Suc)

lemma rotr64_int:
  "rotr64 n w = word_of_int (take_bit 64 (drop_bit n (uint w) OR push_bit (64 - n) (uint w)))"
  unfolding rotr64_def
  by (rule bit_word_eqI) (auto simp add: bit_simps)

lemma rotr64_numeral:
  "rotr64 n (numeral k) =
     word_of_int (take_bit 64 (drop_bit n (take_bit 64 (numeral k))
                               OR push_bit (64 - n) (take_bit 64 (numeral k))))"
proof -
  have L: "LENGTH(64) = 64" by simp
  show ?thesis by (simp only: rotr64_int unsigned_numeral L of_nat_take_bit_numeral_eq)
qed

lemma rotr64_zero: "rotr64 n 0 = 0"
  by (simp add: rotr64_def)

lemma rotr64_one:
  "rotr64 n 1 = word_of_int (take_bit 64 (drop_bit n 1 OR push_bit (64 - n) 1))"
  by (simp only: rotr64_int unsigned_1)

lemma word64_of_take_bit: "(word_of_int (take_bit 64 k) :: u64) = word_of_int k"
  by (rule bit_word_eqI) (simp add: bit_simps)

lemma add64_numeral:
  "(numeral a :: u64) + numeral b = word_of_int (take_bit 64 (numeral a + numeral b))"
  unfolding word64_of_take_bit by simp

lemmas eval64 = rotr64_numeral rotr64_zero rotr64_one add64_numeral

lemma foldl_split: "foldl f s xs = foldl f (foldl f s (take n xs)) (drop n xs)"
  by (simp add: foldl_append [symmetric])

lemma zero_seed_words:
  "map be_u64 (chunks 8 (sha512_pad (replicate 32 0))) =
    [0x0000000000000000, 0x0000000000000000, 0x0000000000000000, 0x0000000000000000,
     0x8000000000000000, 0x0000000000000000, 0x0000000000000000, 0x0000000000000000,
     0x0000000000000000, 0x0000000000000000, 0x0000000000000000, 0x0000000000000000,
     0x0000000000000000, 0x0000000000000000, 0x0000000000000000, 0x0000000000000100]"
  by (simp add: sha512_pad_def u64_be_def be_u64_def replicate_numeral)

lemma zero_seed_schedule_48:
  "foldl sha512_extend
    [0x0000000000000000, 0x0000000000000000, 0x0000000000000000, 0x0000000000000000,
     0x8000000000000000, 0x0000000000000000, 0x0000000000000000, 0x0000000000000000,
     0x0000000000000000, 0x0000000000000000, 0x0000000000000000, 0x0000000000000000,
     0x0000000000000000, 0x0000000000000000, 0x0000000000000000, 0x0000000000000100]
    [16..<48] =
    [0x0000000000000000, 0x0000000000000000, 0x0000000000000000, 0x0000000000000000,
     0x8000000000000000, 0x0000000000000000, 0x0000000000000000, 0x0000000000000000,
     0x0000000000000000, 0x0000000000000000, 0x0000000000000000, 0x0000000000000000,
     0x0000000000000000, 0x0000000000000000, 0x0000000000000000, 0x0000000000000100,
     0x0000000000000000, 0x0020000000000804, 0x0000000000000000, 0x4180000400004000,
     0x8000000000000000, 0x0506081010028102, 0x0200100000000104, 0x7804180001560014,
     0x1048000002001028, 0x01c25f6089b55889, 0xc184220d1008c140, 0x2504d2418460001c,
     0x1c1520e0404a0c04, 0x2ab115e5bf59b171, 0x195de80328a340b0, 0x73544e2c508c6bcf,
     0xa86ef3f37e6e4a39, 0xd7baf03dccedaf09, 0xcd98639d7155a804, 0xaa7d71be0ea3c373,
     0x863308cceaa6b11f, 0x4c9605bc5bb91777, 0x8381d8d658bbf649, 0x87f4805a6cdc2701,
     0x52b04b315bd5c960, 0xaa37408b39987f7b, 0xa8d38b1132105c1e, 0x1264363c78218664,
     0x9c8f44293298ddad, 0x0e5ca46d5f692790, 0x154ff3eacac0b155, 0x0902b47c31d100e4]"
  by (simp add: sha512_extend_def ssig0_def ssig1_def eval64)

lemma zero_seed_schedule_80:
  "foldl sha512_extend
    [0x0000000000000000, 0x0000000000000000, 0x0000000000000000, 0x0000000000000000,
     0x8000000000000000, 0x0000000000000000, 0x0000000000000000, 0x0000000000000000,
     0x0000000000000000, 0x0000000000000000, 0x0000000000000000, 0x0000000000000000,
     0x0000000000000000, 0x0000000000000000, 0x0000000000000000, 0x0000000000000100,
     0x0000000000000000, 0x0020000000000804, 0x0000000000000000, 0x4180000400004000,
     0x8000000000000000, 0x0506081010028102, 0x0200100000000104, 0x7804180001560014,
     0x1048000002001028, 0x01c25f6089b55889, 0xc184220d1008c140, 0x2504d2418460001c,
     0x1c1520e0404a0c04, 0x2ab115e5bf59b171, 0x195de80328a340b0, 0x73544e2c508c6bcf,
     0xa86ef3f37e6e4a39, 0xd7baf03dccedaf09, 0xcd98639d7155a804, 0xaa7d71be0ea3c373,
     0x863308cceaa6b11f, 0x4c9605bc5bb91777, 0x8381d8d658bbf649, 0x87f4805a6cdc2701,
     0x52b04b315bd5c960, 0xaa37408b39987f7b, 0xa8d38b1132105c1e, 0x1264363c78218664,
     0x9c8f44293298ddad, 0x0e5ca46d5f692790, 0x154ff3eacac0b155, 0x0902b47c31d100e4]
    [48..<80] = zero_seed_schedule"
  by (simp add: zero_seed_schedule_def sha512_extend_def ssig0_def ssig1_def eval64)

lemma zero_seed_sha512_schedule:
  "sha512_schedule
    [0x0000000000000000, 0x0000000000000000, 0x0000000000000000, 0x0000000000000000,
     0x8000000000000000, 0x0000000000000000, 0x0000000000000000, 0x0000000000000000,
     0x0000000000000000, 0x0000000000000000, 0x0000000000000000, 0x0000000000000000,
     0x0000000000000000, 0x0000000000000000, 0x0000000000000000, 0x0000000000000100] = zero_seed_schedule"
proof -
  have "[16..<80] = [16..<48] @ [48..<(80::nat)]"
    by simp
  then show ?thesis
    by (simp only: sha512_schedule_def foldl_append zero_seed_schedule_48 zero_seed_schedule_80)
qed

lemma zero_seed_rounds_20:
  "foldl sha512_round
    [0x6a09e667f3bcc908, 0xbb67ae8584caa73b, 0x3c6ef372fe94f82b, 0xa54ff53a5f1d36f1,
     0x510e527fade682d1, 0x9b05688c2b3e6c1f, 0x1f83d9abfb41bd6b, 0x5be0cd19137e2179]
    (take 20 (zip sha512_K zero_seed_schedule)) =
    [0xaee97b7b64f60253, 0x64bed5661ed1b9f0, 0x2d850112ff9c75b7, 0xa266ba6ed8bcaeae,
     0x21d960b9bab816b7, 0x68610b11e5ce204e, 0xe7f4a580967dc267, 0xf0196e8edf50f757]"
  by (simp add: sha512_K_def zero_seed_schedule_def bsig0_def bsig1_def eval64 Let_def)

lemma zero_seed_rounds_40:
  "foldl sha512_round
    [0xaee97b7b64f60253, 0x64bed5661ed1b9f0, 0x2d850112ff9c75b7, 0xa266ba6ed8bcaeae,
     0x21d960b9bab816b7, 0x68610b11e5ce204e, 0xe7f4a580967dc267, 0xf0196e8edf50f757]
    (take 20 (drop 20 (zip sha512_K zero_seed_schedule))) =
    [0x54ca86c3a8a24790, 0xfa01fa456d3331b9, 0xcb2802e83b41be9e, 0xef93823b2a2f27e6,
     0x3eef51993e2d7201, 0xc4fd930f72fdbd40, 0x5aa45808a50d9c68, 0xe2bbeee02f890bf6]"
  by (simp add: sha512_K_def zero_seed_schedule_def bsig0_def bsig1_def eval64 Let_def)

lemma zero_seed_rounds_60:
  "foldl sha512_round
    [0x54ca86c3a8a24790, 0xfa01fa456d3331b9, 0xcb2802e83b41be9e, 0xef93823b2a2f27e6,
     0x3eef51993e2d7201, 0xc4fd930f72fdbd40, 0x5aa45808a50d9c68, 0xe2bbeee02f890bf6]
    (take 20 (drop 40 (zip sha512_K zero_seed_schedule))) =
    [0x9166f89a02961569, 0xe8346cb4523252c0, 0xe555d6b3b662f6b4, 0x736a52b3feff08e1,
     0x3f56b69dabd63b7b, 0x346336e11b3203b4, 0xd210b1de889192c3, 0x4e85ae84cb9d2b72]"
  by (simp add: sha512_K_def zero_seed_schedule_def bsig0_def bsig1_def eval64 Let_def)

lemma zero_seed_rounds_80:
  "foldl sha512_round
    [0x9166f89a02961569, 0xe8346cb4523252c0, 0xe555d6b3b662f6b4, 0x736a52b3feff08e1,
     0x3f56b69dabd63b7b, 0x346336e11b3203b4, 0xd210b1de889192c3, 0x4e85ae84cb9d2b72]
    (drop 60 (zip sha512_K zero_seed_schedule)) =
    [0xe63cc759e7eb6f7e, 0xbfc40d784bf89b03, 0x1c4685fdb6918265, 0x50296b57eb6abaa5,
     0xb95c336af85c57f7, 0x9a3ce2d1514ef75d, 0xe0bcb2ce7898a9c0, 0x2368b8082e8d4c5a]"
  by (simp add: sha512_K_def zero_seed_schedule_def bsig0_def bsig1_def eval64 Let_def)

lemma zero_seed_compress:
  "foldl sha512_round sha512_init (zip sha512_K zero_seed_schedule) =
    [0xe63cc759e7eb6f7e, 0xbfc40d784bf89b03, 0x1c4685fdb6918265, 0x50296b57eb6abaa5,
     0xb95c336af85c57f7, 0x9a3ce2d1514ef75d, 0xe0bcb2ce7898a9c0, 0x2368b8082e8d4c5a]"
proof -
  let ?kws = "zip sha512_K zero_seed_schedule"
  have "foldl sha512_round sha512_init ?kws =
        foldl sha512_round (foldl sha512_round (foldl sha512_round (foldl sha512_round sha512_init
          (take 20 ?kws)) (take 20 (drop 20 ?kws))) (take 20 (drop 40 ?kws))) (drop 60 ?kws)"
    by (subst foldl_split [of _ _ _ 20], subst foldl_split [of _ _ "drop 20 ?kws" 20],
        subst foldl_split [of _ _ "drop 20 (drop 20 ?kws)" 20]) simp
  then show ?thesis
    by (simp only: sha512_init_def zero_seed_rounds_20 zero_seed_rounds_40 zero_seed_rounds_60
        zero_seed_rounds_80)
qed

lemma zero_seed_sha512: "sha512_Sum512 (replicate 32 0) = zero_seed_digest"
proof -
  have blk: "chunks 128 (sha512_pad (replicate 32 0)) = [sha512_pad (replicate 32 0)]"
    by (simp add: sha512_pad_def u64_be_def replicate_numeral)
  have "sha512_block sha512_init (sha512_pad (replicate 32 0)) =
          map2 (+) sha512_init
           [0xe63cc759e7eb6f7e, 0xbfc40d784bf89b03, 0x1c4685fdb6918265, 0x50296b57eb6abaa5,
           0xb95c336af85c57f7, 0x9a3ce2d1514ef75d, 0xe0bcb2ce7898a9c0, 0x2368b8082e8d4c5a]"
    by (simp only: sha512_block_def Let_def zero_seed_words zero_seed_sha512_schedule
        zero_seed_compress)
  then show ?thesis
    by (simp add: sha512_Sum512_def blk sha512_init_def u64_be_def zero_seed_digest_def)
qed

lemma zero_seed_expanded:
  "expandSecretKey zero_seed_private =
     zero_seed_digest[0 := 0x50, 31 := 0x56]"
proof -
  have "take 32 zero_seed_private = replicate 32 0"
    by (simp add: zero_seed_private_def)
  then show ?thesis
    by (simp add: expandSecretKey_def zero_seed_sha512 Let_def) (simp add: zero_seed_digest_def)
qed

text \<open>
  The last byte of the 64-byte result is byte 63, which the clamp does not touch.  For the
  key pair of the all-zero seed it is \<open>0xd3\<close>, with its high bit set: the statement "the
  last byte of the output has its high bit clear and bit 6 set" fails there.
\<close>

theorem expandSecretKey_last_byte_counterexample:
  "\<not> (let expanded = expandSecretKey zero_seed_private
       in expanded ! 0 AND 7 = 0 \<and> last expanded AND 128 = 0 \<and> last expanded AND 64 = 64)"
  by (simp add: zero_seed_expanded zero_seed_digest_def)

lemma zero_seed_expanded_bytes:
  "expandSecretKey zero_seed_private ! 0 = 0x50 \<and> expandSecretKey zero_seed_private ! 31 = 0x56
   \<and> expandSecretKey zero_seed_private ! 63 = 0xd3 \<and> last (expandSecretKey zero_seed_private) = 0xd3"
  by (simp add: zero_seed_expanded zero_seed_digest_def)

section \<open>The file system\<close>

lemma parent_append:
  "CHR ''/'' \<notin> set name \<Longrightarrow> a \<noteq> [] \<Longrightarrow> parent (a @ CHR ''/'' # name) = a"
proof -
  assume n: "CHR ''/'' \<notin> set name" and a: "a \<noteq> []"
  have "dropWhile (\<lambda>c. c \<noteq> CHR ''/'') (rev name @ CHR ''/'' # rev a) = CHR ''/'' # rev a"
    using n by (subst dropWhile_append3) auto
  then show ?thesis using a by (simp add: parent_def Let_def)
qed

lemma ancestors_shorter: "d \<in> set (ancestors acc p) \<Longrightarrow> length d < length acc + length p"
proof (induction p arbitrary: acc)
  case Nil
  then show ?case by simp
next
  case (Cons c p)
  from Cons.prems have "d = acc \<or> d \<in> set (ancestors (acc @ [c]) p)"
    by (auto split: if_splits)
  then show ?case
  proof
    assume "d = acc"
    then show ?thesis by simp
  next
    assume "d \<in> set (ancestors (acc @ [c]) p)"
    from Cons.IH [OF this] show ?thesis by simp
  qed
qed

lemma path_not_ancestor: "p \<notin> set (ancestors [] p)"
  using ancestors_shorter [of p "[]" p] by auto

lemma Mkdir_files [simp]: "files (snd (Mkdir fs d)) = files fs"
  by (simp add: Mkdir_def)

lemma Mkdir_space [simp]: "space (snd (Mkdir fs d)) = space fs"
  by (simp add: Mkdir_def)

lemma Mkdir_denied [simp]: "denied (snd (Mkdir fs d)) = denied fs"
  by (simp add: Mkdir_def)

lemma Mkdir_dirs: "dirs (snd (Mkdir fs d)) \<subseteq> insert d (dirs fs)"
  by (auto simp add: Mkdir_def)

lemma Mkdir_error: "Mkdir fs d = (Some err, fs') \<Longrightarrow> fs' = fs"
  by (auto simp add: Mkdir_def split: if_splits)

lemma mkdir_chain_files [simp]: "files (snd (mkdir_chain fs ds)) = files fs"
proof (induction ds arbitrary: fs)
  case Nil
  then show ?case by simp
next
  case (Cons d ds)
  show ?case
  proof (cases "Mkdir fs d")
    case (Pair r fs')
    then have "files fs' = files fs" using Mkdir_files [of fs d] by simp
    with Pair Cons show ?thesis by (cases r) simp_all
  qed
qed

lemma mkdir_chain_error:
  "mkdir_chain fs ds = (Some err, fs') \<Longrightarrow> dirs fs' \<subseteq> dirs fs \<union> set (butlast ds)"
proof (induction ds arbitrary: fs)
  case Nil
  then show ?case by simp
next
  case (Cons d ds)
  have ne: "ds \<noteq> []" if "mkdir_chain g ds = (Some err, fs')" for g
    using that by (cases ds) simp_all
  show ?case
  proof (cases "has_dir fs d")
    case True
    with Cons.prems have r: "mkdir_chain fs ds = (Some err, fs')" by simp
    from Cons.IH [OF r] ne [OF r] show ?thesis by auto
  next
    case False
    show ?thesis
    proof (cases "Mkdir fs d")
      case (Pair r fs1)
      show ?thesis
      proof (cases r)
        case None
        with Pair False Cons.prems have r: "mkdir_chain fs1 ds = (Some err, fs')" by simp
        have "dirs fs1 \<subseteq> insert d (dirs fs)" using Mkdir_dirs [of fs d] Pair by simp
        with Cons.IH [OF r] ne [OF r] show ?thesis by auto
      next
        case (Some e)
        with Pair False Cons.prems have "fs' = fs1" by simp
        moreover have "fs1 = fs" using Pair Some by (simp add: Mkdir_error)
        ultimately show ?thesis by simp
      qed
    qed
  qed
qed

lemma MkdirAll_files [simp]: "files (snd (MkdirAll fs p)) = files fs"
  by (simp add: MkdirAll_def)

lemma MkdirAll_error:
  assumes "fst (MkdirAll fs p) = Some err"
  shows "\<not> has_dir (snd (MkdirAll fs p)) p"
proof -
  from assms have nd: "\<not> has_dir fs p" by (auto simp add: MkdirAll_def split: if_splits)
  show ?thesis
  proof (cases "files fs p \<noteq> None")
    case True
    with nd show ?thesis by (simp add: MkdirAll_def)
  next
    case False
    with nd assms obtain fs' where r: "mkdir_chain fs (ancestors [] p @ [p]) = (Some err, fs')"
      by (cases "mkdir_chain fs (ancestors [] p @ [p])") (simp add: MkdirAll_def)
    from mkdir_chain_error [OF r] have "dirs fs' \<subseteq> dirs fs \<union> set (ancestors [] p)" by simp
    with nd path_not_ancestor [of p] have "\<not> has_dir fs' p" by (auto simp add: has_dir_def)
    with nd False r show ?thesis by (simp add: MkdirAll_def)
  qed
qed

lemma OpenFile_needs_dir: "OpenFile fs name = Inr fs' \<Longrightarrow> has_dir fs (parent name)"
  by (auto simp add: OpenFile_def split: if_splits)

lemma OpenFile_files: "OpenFile fs name = Inr fs' \<Longrightarrow> files fs' = (files fs)(name \<mapsto> [])"
  by (auto simp add: OpenFile_def split: if_splits)

lemma OpenFile_dirs: "OpenFile fs name = Inr fs' \<Longrightarrow> dirs fs' = dirs fs"
  by (auto simp add: OpenFile_def split: if_splits)

lemma file_Write_ok:
  "file_Write fs name data = (None, fs') \<Longrightarrow>
     files fs' = (files fs)(name \<mapsto> (case files fs name of None \<Rightarrow> [] | Some c \<Rightarrow> c) @ data)
     \<and> dirs fs' = dirs fs \<and> space fs' + length data = space fs"
  by (auto simp add: file_Write_def Let_def min_def split: if_splits)

lemma file_Write_enough:
  "length data \<le> space fs \<Longrightarrow> fst (file_Write fs name data) = None"
  by (simp add: file_Write_def Let_def min_def)

lemma WriteFile_ok:
  "WriteFile fs name data = (None, fs') \<Longrightarrow>
     files fs' = (files fs)(name \<mapsto> data) \<and> dirs fs' = dirs fs \<and> has_dir fs (parent name)"
proof -
  assume a: "WriteFile fs name data = (None, fs')"
  then obtain fs1 where o: "OpenFile fs name = Inr fs1" and w: "file_Write fs1 name data = (None, fs')"
    by (auto simp add: WriteFile_def split: sum.splits)
  from file_Write_ok [OF w] OpenFile_files [OF o] OpenFile_dirs [OF o] OpenFile_needs_dir [OF o]
  show ?thesis by simp
qed

lemma WriteFile_no_dir:
  "\<not> has_dir fs (parent name) \<Longrightarrow> \<exists>err. WriteFile fs name data = (Some err, fs)"
  by (simp add: WriteFile_def OpenFile_def)

lemma ioutil_WriteFile_ok:
  "ioutil_WriteFile name data w = (None, w') \<Longrightarrow>
     files (disk w') = (files (disk w))(name \<mapsto> data) \<and> dirs (disk w') = dirs (disk w)
     \<and> has_dir (disk w) (parent name) \<and> trace w' = trace w @ [FileWritten name]"
proof -
  assume a: "ioutil_WriteFile name data w = (None, w')"
  then obtain fs' where wf: "WriteFile (disk w) name data = (None, fs')"
    and w': "w' = emit (FileWritten name) (w\<lparr>disk := fs'\<rparr>)"
    by (cases "WriteFile (disk w) name data")
       (auto simp add: ioutil_WriteFile_def split: option.splits)
  from WriteFile_ok [OF wf] w' show ?thesis by (simp add: emit_def)
qed

lemma ioutil_WriteFile_err:
  "ioutil_WriteFile name data w = (Some err, w') \<Longrightarrow> trace w' = trace w"
  by (cases "WriteFile (disk w) name data")
     (auto simp add: ioutil_WriteFile_def split: option.splits)

lemma ioutil_WriteFile_no_dir:
  "\<not> has_dir (disk w) (parent name) \<Longrightarrow> \<exists>err. ioutil_WriteFile name data w = (Some err, w)"
proof -
  assume "\<not> has_dir (disk w) (parent name)"
  from WriteFile_no_dir [OF this, of "data"] obtain err
    where "WriteFile (disk w) name data = (Some err, disk w)" by blast
  then show ?thesis by (simp add: ioutil_WriteFile_def)
qed

section \<open>Writing the Tor files\<close>

lemma checkErr_cases:
  "checkErr r rest = (out, w') \<Longrightarrow>
     (\<exists>err. r = (Some err, w') \<and> out = Panic err) \<or> (\<exists>w1. r = (None, w1) \<and> rest w1 = (out, w'))"
  by (cases r) (auto simp add: checkErr_def split: option.splits)

lemma saveTorFormat_cases:
  assumes "saveTorFormat a pk sk w = (out, w')"
  defines "w0 \<equiv> w\<lparr>disk := snd (MkdirAll (disk w) a)\<rparr>"
  defines "n1 \<equiv> a @ ''/hs_ed25519_secret_key''"
  defines "n2 \<equiv> a @ ''/hs_ed25519_public_key''"
  defines "n3 \<equiv> a @ ''/hostname''"
  defines "d1 \<equiv> bytes_of ''== ed25519v1-secret: type0 =='' @ [0, 0, 0] @ sk"
  defines "d2 \<equiv> bytes_of ''== ed25519v1-public: type0 =='' @ [0, 0, 0] @ pk"
  defines "d3 \<equiv> bytes_of (a @ ''.onion'' @ [CHR 0x0A])"
  shows "(\<exists>err. out = Panic err \<and> ioutil_WriteFile n1 d1 w0 = (Some err, w'))
       \<or> (\<exists>err w1. out = Panic err \<and> ioutil_WriteFile n1 d1 w0 = (None, w1)
             \<and> ioutil_WriteFile n2 d2 w1 = (Some err, w'))
       \<or> (\<exists>err w1 w2. out = Panic err \<and> ioutil_WriteFile n1 d1 w0 = (None, w1)
             \<and> ioutil_WriteFile n2 d2 w1 = (None, w2) \<and> ioutil_WriteFile n3 d3 w2 = (Some err, w'))
       \<or> (\<exists>w1 w2. out = Return () \<and> ioutil_WriteFile n1 d1 w0 = (None, w1)
             \<and> ioutil_WriteFile n2 d2 w1 = (None, w2) \<and> ioutil_WriteFile n3 d3 w2 = (None, w'))"
proof -
  from assms(1) have "checkErr (ioutil_WriteFile n1 d1 w0)
     (\<lambda>w. checkErr (ioutil_WriteFile n2 d2 w)
     (\<lambda>w. checkErr (ioutil_WriteFile n3 d3 w) (\<lambda>w. (Return (), w)))) = (out, w')"
    by (simp add: saveTorFormat_def Let_def w0_def n1_def n2_def n3_def d1_def d2_def d3_def)
  then show ?thesis
    by (auto dest!: checkErr_cases)
qed

lemma tor_names_distinct:
  "a @ ''/hs_ed25519_secret_key'' \<noteq> a @ ''/hs_ed25519_public_key''"
  "a @ ''/hs_ed25519_secret_key'' \<noteq> a @ ''/hostname''"
  "a @ ''/hs_ed25519_public_key'' \<noteq> a @ ''/hostname''"
  by simp_all

lemma saveTorFormat_Return:
  assumes "saveTorFormat a pk sk w = (Return u, w')"
  shows "files (disk w') (a @ ''/hs_ed25519_secret_key'') =
           Some (bytes_of ''== ed25519v1-secret: type0 =='' @ [0, 0, 0] @ sk)"
    and "files (disk w') (a @ ''/hs_ed25519_public_key'') =
           Some (bytes_of ''== ed25519v1-public: type0 =='' @ [0, 0, 0] @ pk)"
    and "files (disk w') (a @ ''/hostname'') = Some (bytes_of (a @ ''.onion'' @ [CHR 0x0A]))"
    and "trace w' = trace w @ [FileWritten (a @ ''/hs_ed25519_secret_key''),
           FileWritten (a @ ''/hs_ed25519_public_key''), FileWritten (a @ ''/hostname'')]"
proof -
  let ?w0 = "w\<lparr>disk := snd (MkdirAll (disk w) a)\<rparr>"
  from saveTorFormat_cases [OF assms] obtain w1 w2 where
    s1: "ioutil_WriteFile (a @ ''/hs_ed25519_secret_key'')
           (bytes_of ''== ed25519v1-secret: type0 =='' @ [0, 0, 0] @ sk) ?w0 = (None, w1)" and
    s2: "ioutil_WriteFile (a @ ''/hs_ed25519_public_key'')
           (bytes_of ''== ed25519v1-public: type0 =='' @ [0, 0, 0] @ pk) w1 = (None, w2)" and
    s3: "ioutil_WriteFile (a @ ''/hostname'') (bytes_of (a @ ''.onion'' @ [CHR 0x0A])) w2 = (None, w')"
    by auto
  note f1 = ioutil_WriteFile_ok [OF s1] and f2 = ioutil_WriteFile_ok [OF s2]
    and f3 = ioutil_WriteFile_ok [OF s3]
  show "files (disk w') (a @ ''/hs_ed25519_secret_key'') =
           Some (bytes_of ''== ed25519v1-secret: type0 =='' @ [0, 0, 0] @ sk)"
    using f1 f2 f3 by simp
  show "files (disk w') (a @ ''/hs_ed25519_public_key'') =
           Some (bytes_of ''== ed25519v1-public: type0 =='' @ [0, 0, 0] @ pk)"
    using f1 f2 f3 by simp
  show "files (disk w') (a @ ''/hostname'') = Some (bytes_of (a @ ''.onion'' @ [CHR 0x0A]))"
    using f3 by simp
  show "trace w' = trace w @ [FileWritten (a @ ''/hs_ed25519_secret_key''),
           FileWritten (a @ ''/hs_ed25519_public_key''), FileWritten (a @ ''/hostname'')]"
    using f1 f2 f3 by simp
qed

lemma saveTorFormat_Panic:
  assumes "saveTorFormat a pk sk w = (Panic err, w')"
  shows "\<exists>k<3. trace w' = trace w @ take k [FileWritten (a @ ''/hs_ed25519_secret_key''),
           FileWritten (a @ ''/hs_ed25519_public_key''), FileWritten (a @ ''/hostname'')]"
proof -
  let ?w0 = "w\<lparr>disk := snd (MkdirAll (disk w) a)\<rparr>"
  let ?evs = "[FileWritten (a @ ''/hs_ed25519_secret_key''),
           FileWritten (a @ ''/hs_ed25519_public_key''), FileWritten (a @ ''/hostname'')]"
  from saveTorFormat_cases [OF assms]
  consider (one) "trace w' = trace w @ take 0 ?evs"
    | (two) "trace w' = trace w @ take 1 ?evs"
    | (three) "trace w' = trace w @ take 2 ?evs"
    by (auto dest!: ioutil_WriteFile_ok ioutil_WriteFile_err)
  then show ?thesis
  proof cases
    case one
    then show ?thesis by (intro exI [of _ 0]) simp
  next
    case two
    then show ?thesis by (intro exI [of _ 1]) simp
  next
    case three
    then show ?thesis by (intro exI [of _ 2]) simp
  qed
qed

lemma saveTorFormat_no_Exit: "saveTorFormat a pk sk w \<noteq> (Exit n, w')"
  using saveTorFormat_cases [of a pk sk w "Exit n" w'] by auto

lemma saveTorFormat_mkdir_failed:
  assumes "fst (MkdirAll (disk w) a) = Some err" and "a \<noteq> []"
  shows "\<exists>e. saveTorFormat a pk sk w = (Panic e, w\<lparr>disk := snd (MkdirAll (disk w) a)\<rparr>)"
proof -
  let ?w0 = "w\<lparr>disk := snd (MkdirAll (disk w) a)\<rparr>"
  have "parent (a @ ''/hs_ed25519_secret_key'') = a"
    using parent_append [of "''hs_ed25519_secret_key''" a] assms(2) by simp
  with MkdirAll_error [OF assms(1)]
  have "\<not> has_dir (disk ?w0) (parent (a @ ''/hs_ed25519_secret_key''))" by simp
  from ioutil_WriteFile_no_dir [OF this] obtain e where
    "ioutil_WriteFile (a @ ''/hs_ed25519_secret_key'')
       (bytes_of ''== ed25519v1-secret: type0 =='' @ [0, 0, 0] @ sk) ?w0 = (Some e, ?w0)"
    by blast
  then show ?thesis by (auto simp add: saveTorFormat_def Let_def checkErr_def)
qed

section \<open>Prefix matching\<close>

lemma HasPrefix_iff: "HasPrefix s p \<longleftrightarrow> prefix p s"
proof
  assume "HasPrefix s p"
  then have "s = p @ drop (length p) s"
    by (metis HasPrefix_def append_take_drop_id)
  then show "prefix p s" by (metis prefixI)
next
  assume "prefix p s"
  then show "HasPrefix s p" by (auto simp add: HasPrefix_def prefix_def)
qed

lemma match_prefixes_none:
  "\<forall>p \<in> set ps. \<not> HasPrefix a p \<Longrightarrow> match_prefixes mk a ps w = w"
  by (induction ps) simp_all

lemma match_prefixes_first:
  "i < length ps \<Longrightarrow> HasPrefix a (ps ! i) \<Longrightarrow> \<forall>j < i. \<not> HasPrefix a (ps ! j) \<Longrightarrow>
     match_prefixes mk a ps w = emit (ChanSend (mk (ps ! i))) w"
proof (induction ps arbitrary: i)
  case Nil
  then show ?case by simp
next
  case (Cons p ps)
  show ?case
  proof (cases i)
    case 0
    with Cons.prems show ?thesis by simp
  next
    case (Suc k)
    with Cons.prems have "\<not> HasPrefix a p" by auto
    moreover have "match_prefixes mk a ps w = emit (ChanSend (mk (ps ! k))) w"
      using Cons.prems Suc by (intro Cons.IH) auto
    ultimately show ?thesis using Suc by simp
  qed
qed

lemma match_prefixes_find:
  "match_prefixes mk a ps w =
     (case find (HasPrefix a) ps of None \<Rightarrow> w | Some p \<Rightarrow> emit (ChanSend (mk p)) w)"
  by (induction ps) simp_all

lemma match_prefixes_disk [simp]: "disk (match_prefixes mk a ps w) = disk w"
  by (simp add: match_prefixes_find emit_def split: option.splits)

lemma match_prefixes_trace:
  "trace (match_prefixes mk a ps w) =
     trace w @ (case find (HasPrefix a) ps of None \<Rightarrow> [] | Some p \<Rightarrow> [ChanSend (mk p)])"
  by (simp add: match_prefixes_find emit_def split: option.splits)

text \<open>
  \<^bold>\<open>C6\<close>.  Prefix matching is first-match-wins: over a non-empty prefix list, the loop
  reports the first prefix in list order that the address starts with, and reports nothing
  when the address starts with none of them.  With the prefixes \<open>["ab", "a"]\<close> and an
  address starting \<open>abc\<close>, the reported prefix is \<open>ab\<close>.
\<close>

theorem match_prefixes_first_wins:
  "ps \<noteq> [] \<Longrightarrow>
     ((\<forall>p \<in> set ps. \<not> prefix p a) \<longrightarrow> match_prefixes mk a ps w = w)
   \<and> (\<forall>i < length ps. prefix (ps ! i) a \<and> (\<forall>j < i. \<not> prefix (ps ! j) a) \<longrightarrow>
         match_prefixes mk a ps w = emit (ChanSend (mk (ps ! i))) w)"
  using match_prefixes_none [of ps a mk w] match_prefixes_first [of _ ps a mk w]
  by (simp add: HasPrefix_iff)

theorem match_prefixes_first_wins_witness:
  "[''ab'', ''a''] \<noteq> [] \<and> prefix ''ab'' ''abcxyz'' \<and> prefix ''a'' ''abcxyz''
   \<and> match_prefixes (\<lambda>p. new_match p ''abcxyz'' zero_seed_private 1 0) ''abcxyz'' [''ab'', ''a''] (fresh_world 0)
      = emit (ChanSend (new_match ''ab'' ''abcxyz'' zero_seed_private 1 0)) (fresh_world 0)
   \<and> Prefix (new_match ''ab'' ''abcxyz'' zero_seed_private 1 0) = ''ab''"
proof -
  have p: "prefix ''ab'' ''abcxyz''" "prefix ''a'' ''abcxyz''" by simp_all
  from match_prefixes_first_wins [of "[''ab'', ''a'']" "''abcxyz''"
      "\<lambda>p. new_match p ''abcxyz'' zero_seed_private 1 0" "fresh_world 0"]
  have "\<forall>i < length [''ab'', ''a''].
          prefix ([''ab'', ''a''] ! i) ''abcxyz'' \<and> (\<forall>j < i. \<not> prefix ([''ab'', ''a''] ! j) ''abcxyz'') \<longrightarrow>
          match_prefixes (\<lambda>p. new_match p ''abcxyz'' zero_seed_private 1 0) ''abcxyz'' [''ab'', ''a''] (fresh_world 0)
            = emit (ChanSend (new_match ([''ab'', ''a''] ! i) ''abcxyz'' zero_seed_private 1 0)) (fresh_world 0)"
    by simp
  from this [rule_format, of 0] p show ?thesis by (simp add: new_match_def)
qed

end
